theory Spec2Isabelle
  imports Main "HOL-Library.Char_ord" "HOL-Library.List_Lexorder" "HOL-Library.Multiset"
begin

section \<open>The session store of todo lists (src/lib/session-persistence.js)\<close>

subsection \<open>Data model\<close>

text \<open>
  A todo is the object \<^verbatim>\<open>{ id, title, done }\<close> and a todo list is the object
  \<^verbatim>\<open>{ title, id, todos }\<close> that \<^verbatim>\<open>createTodoList\<close> and \<^verbatim>\<open>addNewTodo\<close> build.
  The field names carry a prefix because \<open>id\<close> is a constant of HOL, \<open>done\<close> is a
  keyword of Isar, and both objects have a \<open>title\<close>. Ids are numbers compared with
  \<^verbatim>\<open>===\<close> (the source requires them to be numeric), titles are strings of ASCII
  characters, \<open>done\<close> is a boolean.
\<close>

record todo =
  todo_id :: int
  todo_title :: string
  todo_done :: bool

record todoList =
  list_title :: string
  list_id :: int
  todos :: "todo list"

text \<open>
  The state of a \<^verbatim>\<open>SessionPersistence\<close> object is the array \<^verbatim>\<open>this._todoLists\<close>.
  The objects in it are created by \<^verbatim>\<open>createTodoList\<close>, \<^verbatim>\<open>addNewTodo\<close> and the deep
  copy of the seed data, so no object occurs twice and the array is a tree of
  values. A method that mutates the state returns the new state beside its
  JavaScript result.
\<close>

record store =
  todoLists :: "todoList list"

subsection \<open>Array methods of JavaScript used by the source\<close>

text \<open>
  \<^verbatim>\<open>Array.prototype.find\<close> is \<^const>\<open>List.find\<close> (\<open>None\<close> for \<^verbatim>\<open>undefined\<close>),
  \<^verbatim>\<open>some\<close> is \<^const>\<open>list_ex\<close>, \<^verbatim>\<open>every\<close> is \<^const>\<open>list_all\<close>, \<^verbatim>\<open>filter\<close> is
  \<^const>\<open>filter\<close>, \<^verbatim>\<open>push\<close> appends one element.
  \<^verbatim>\<open>findIndex\<close> returns the index of the first element that satisfies the
  predicate, and \<open>-1\<close> when there is none.
\<close>

fun findIndex :: "('a \<Rightarrow> bool) \<Rightarrow> 'a list \<Rightarrow> int" where
  "findIndex P [] = - 1"
| "findIndex P (x # xs) =
     (if P x then 0
      else (let i = findIndex P xs in if i = - 1 then - 1 else i + 1))"

text \<open>\<^verbatim>\<open>xs.splice(i, 1)\<close> for an index \<open>i \<ge> 0\<close>: the element at \<open>i\<close> is removed.\<close>

definition splice1 :: "int \<Rightarrow> 'a list \<Rightarrow> 'a list" where
  "splice1 i xs = take (nat i) xs @ drop (nat i + 1) xs"

text \<open>
  \<^verbatim>\<open>find\<close> returns a reference, and the source then assigns to a field of the
  object found. On values this is: the first element that satisfies the
  predicate is replaced by its updated version, every other element stays.
\<close>

fun mutateFound :: "('a \<Rightarrow> bool) \<Rightarrow> ('a \<Rightarrow> 'a) \<Rightarrow> 'a list \<Rightarrow> 'a list" where
  "mutateFound P f [] = []"
| "mutateFound P f (x # xs) = (if P x then f x # xs else x # mutateFound P f xs)"

subsection \<open>Collaborators that are required but not part of the module\<close>

text \<open>
  Modelled from the spec: \<^verbatim>\<open>./deep-copy\<close> is missing. The spec describes it as
  a utility that "returns independent clones so callers cannot mutate internal
  state"; on values a clone is the value itself, and the absent value
  (\<^verbatim>\<open>undefined\<close>) is returned as the "not found" sentinel.
\<close>

definition deepCopy :: "'a \<Rightarrow> 'a" where
  "deepCopy x = x"

text \<open>
  \<^verbatim>\<open>String.prototype.toLowerCase\<close> on ASCII strings: the letters \<open>A\<close> to \<open>Z\<close> are
  moved to \<open>a\<close> to \<open>z\<close>, every other character stays.
\<close>

definition lowerChar :: "char \<Rightarrow> char" where
  "lowerChar c =
     (if CHR ''A'' \<le> c \<and> c \<le> CHR ''Z'' then char_of (of_char c + (32::nat)) else c)"

definition toLowerCase :: "string \<Rightarrow> string" where
  "toLowerCase s = map lowerChar s"

text \<open>
  Modelled from the spec: \<^verbatim>\<open>./sort\<close> is missing. The spec gives the contract of
  \<^verbatim>\<open>sortTodoLists(undone, done)\<close>: "each group ordered by title,
  case-insensitive, then merged with undone group preceding done group". Each
  group is sorted on the lower-cased title (a stable sort, as
  \<^verbatim>\<open>Array.prototype.sort\<close> is) and the undone group is put in front.
\<close>

definition sortTodoLists :: "todoList list \<Rightarrow> todoList list \<Rightarrow> todoList list" where
  "sortTodoLists undone dones =
     sort_key (\<lambda>l. toLowerCase (list_title l)) undone
     @ sort_key (\<lambda>l. toLowerCase (list_title l)) dones"

subsection \<open>The methods of SessionPersistence\<close>

text \<open>
  \<^verbatim>\<open>./next-id\<close> is missing as well; the number that a call of \<^verbatim>\<open>nextId()\<close>
  returns is the first argument of the two methods that call it.
\<close>

definition createTodoList :: "int \<Rightarrow> string \<Rightarrow> store \<Rightarrow> bool \<times> store" where
  "createTodoList nextId title s =
     (True, s\<lparr>todoLists := todoLists s @ [\<lparr>list_title = title, list_id = nextId, todos = []\<rparr>]\<rparr>)"

definition isDoneTodoList :: "todoList \<Rightarrow> bool" where
  "isDoneTodoList todoList \<longleftrightarrow>
     length (todos todoList) > 0 \<and> list_all (\<lambda>todo. todo_done todo) (todos todoList)"

definition hasUndoneTodos :: "todoList \<Rightarrow> bool" where
  "hasUndoneTodos todoList \<longleftrightarrow> list_ex (\<lambda>todo. \<not> todo_done todo) (todos todoList)"

definition sortedTodoLists :: "store \<Rightarrow> todoList list" where
  "sortedTodoLists s =
     (let todoLists' = deepCopy (todoLists s);
          undone = filter (\<lambda>todoList. \<not> isDoneTodoList todoList) todoLists';
          dones = filter (\<lambda>todoList. isDoneTodoList todoList) todoLists'
      in sortTodoLists undone dones)"

text \<open>The two private lookups; \<open>None\<close> is \<^verbatim>\<open>undefined\<close>.\<close>

definition priv_findTodoList :: "int \<Rightarrow> store \<Rightarrow> todoList option" where
  "priv_findTodoList todoListId s =
     List.find (\<lambda>todoList. list_id todoList = todoListId) (todoLists s)"

definition priv_findTodo :: "int \<Rightarrow> int \<Rightarrow> store \<Rightarrow> todo option" where
  "priv_findTodo todoListId todoId s =
     (case priv_findTodoList todoListId s of
        None \<Rightarrow> None
      | Some todoList \<Rightarrow> List.find (\<lambda>todo. todo_id todo = todoId) (todos todoList))"

definition loadTodoList :: "int \<Rightarrow> store \<Rightarrow> todoList option" where
  "loadTodoList todoListId s = deepCopy (priv_findTodoList todoListId s)"

definition loadTodo :: "int \<Rightarrow> int \<Rightarrow> store \<Rightarrow> todo option" where
  "loadTodo todoListId todoId s = deepCopy (priv_findTodo todoListId todoId s)"

text \<open>
  The methods below assign through the reference that a private lookup
  returned: the list found is the first one with the id, the todo found is the
  first one with the id in that list.
\<close>

definition inTodoList :: "int \<Rightarrow> (todoList \<Rightarrow> todoList) \<Rightarrow> store \<Rightarrow> store" where
  "inTodoList todoListId f s =
     s\<lparr>todoLists := mutateFound (\<lambda>todoList. list_id todoList = todoListId) f (todoLists s)\<rparr>"

definition toggleDoneTodo :: "int \<Rightarrow> int \<Rightarrow> store \<Rightarrow> bool \<times> store" where
  "toggleDoneTodo todoListId todoId s =
     (case priv_findTodo todoListId todoId s of
        None \<Rightarrow> (False, s)
      | Some todo \<Rightarrow>
          (True, inTodoList todoListId
             (\<lambda>l. l\<lparr>todos := mutateFound (\<lambda>t. todo_id t = todoId)
                                (\<lambda>t. t\<lparr>todo_done := \<not> todo_done t\<rparr>) (todos l)\<rparr>) s))"

definition deleteTodo :: "int \<Rightarrow> int \<Rightarrow> store \<Rightarrow> bool \<times> store" where
  "deleteTodo todoListId todoId s =
     (case priv_findTodoList todoListId s of
        None \<Rightarrow> (False, s)
      | Some todoList \<Rightarrow>
          (let todoIndex = findIndex (\<lambda>todo. todo_id todo = todoId) (todos todoList)
           in if todoIndex = - 1 then (False, s)
              else (True, inTodoList todoListId
                      (\<lambda>l. l\<lparr>todos := splice1 todoIndex (todos l)\<rparr>) s)))"

definition deleteTodoList :: "int \<Rightarrow> store \<Rightarrow> bool \<times> store" where
  "deleteTodoList todoListId s =
     (let todoListIndex = findIndex (\<lambda>todoList. list_id todoList = todoListId) (todoLists s)
      in if todoListIndex = - 1 then (False, s)
         else (True, s\<lparr>todoLists := splice1 todoListIndex (todoLists s)\<rparr>))"

definition markAllDone :: "int \<Rightarrow> store \<Rightarrow> bool \<times> store" where
  "markAllDone todoListId s =
     (case priv_findTodoList todoListId s of
        None \<Rightarrow> (False, s)
      | Some todoList \<Rightarrow>
          (True, inTodoList todoListId
             (\<lambda>l. l\<lparr>todos := map (\<lambda>todo. todo\<lparr>todo_done := True\<rparr>) (todos l)\<rparr>) s))"

definition addNewTodo :: "int \<Rightarrow> int \<Rightarrow> string \<Rightarrow> store \<Rightarrow> bool \<times> store" where
  "addNewTodo nextId todoListId title s =
     (case priv_findTodoList todoListId s of
        None \<Rightarrow> (False, s)
      | Some todoList \<Rightarrow>
          (True, inTodoList todoListId
             (\<lambda>l. l\<lparr>todos := todos l @ [\<lparr>todo_id = nextId, todo_title = title, todo_done = False\<rparr>]\<rparr>) s))"

definition renameTodoList :: "int \<Rightarrow> string \<Rightarrow> store \<Rightarrow> bool \<times> store" where
  "renameTodoList todoListId newTitle s =
     (case priv_findTodoList todoListId s of
        None \<Rightarrow> (False, s)
      | Some todoList \<Rightarrow> (True, inTodoList todoListId (\<lambda>l. l\<lparr>list_title := newTitle\<rparr>) s))"

definition isUniqueList :: "string \<Rightarrow> store \<Rightarrow> bool" where
  "isUniqueList title s \<longleftrightarrow> \<not> list_ex (\<lambda>todoList. list_title todoList = title) (todoLists s)"

subsection \<open>A store used in the examples\<close>

text \<open>
  Three lists: "Work" (id 1) with one undone and one done todo, "home" (id 2)
  without todos, "Chores" (id 3) with all todos done.
\<close>

definition exampleStore :: store where
  "exampleStore = \<lparr>todoLists =
     [\<lparr>list_title = ''Work'', list_id = 1, todos =
         [\<lparr>todo_id = 1, todo_title = ''A'', todo_done = False\<rparr>,
          \<lparr>todo_id = 2, todo_title = ''B'', todo_done = True\<rparr>]\<rparr>,
      \<lparr>list_title = ''home'', list_id = 2, todos = []\<rparr>,
      \<lparr>list_title = ''Chores'', list_id = 3, todos =
         [\<lparr>todo_id = 1, todo_title = ''Sweep'', todo_done = True\<rparr>]\<rparr>]\<rparr>"

section \<open>Lemmas about the array methods\<close>

lemma findIndex_ge: "- 1 \<le> findIndex P xs"
  by (induction xs) (auto simp: Let_def)

lemma findIndex_neg_iff: "findIndex P xs = - 1 \<longleftrightarrow> List.find P xs = None"
proof (induction xs)
  case Nil
  show ?case by simp
next
  case (Cons x xs)
  from findIndex_ge [of P xs] have "findIndex P xs + 1 \<noteq> - 1" by arith
  with Cons show ?case by (simp add: Let_def)
qed

lemma length_mutateFound: "length (mutateFound P f xs) = length xs"
  by (induction xs) auto

lemma mutateFound_fixed: "(\<And>x. x \<in> set xs \<Longrightarrow> f x = x) \<Longrightarrow> mutateFound P f xs = xs"
  by (induction xs) auto

lemma mutateFound_twice:
  "(\<And>x. P x \<Longrightarrow> P (f x)) \<Longrightarrow>
   mutateFound P g (mutateFound P f xs) = mutateFound P (\<lambda>x. g (f x)) xs"
  by (induction xs) auto

lemma find_mutateFound:
  "(\<And>x. P x \<Longrightarrow> P (f x)) \<Longrightarrow> List.find P (mutateFound P f xs) = map_option f (List.find P xs)"
  by (induction xs) auto

lemma mutateFound_nth:
  "i < length xs \<Longrightarrow> mutateFound P f xs ! i = xs ! i \<or> mutateFound P f xs ! i = f (xs ! i)"
proof (induction xs arbitrary: i)
  case Nil
  then show ?case by simp
next
  case (Cons x xs)
  then show ?case by (cases i) auto
qed

lemma mutateFound_update:
  "List.find P xs = Some x \<Longrightarrow>
   \<exists>i<length xs. xs ! i = x \<and> (\<forall>k<i. \<not> P (xs ! k)) \<and> mutateFound P f xs = xs[i := f x]"
proof (induction xs)
  case Nil
  then show ?case by simp
next
  case (Cons y ys)
  show ?case
  proof (cases "P y")
    case True
    with Cons.prems have "y = x" by simp
    with True have "(y # ys) ! 0 = x \<and> (\<forall>k<0. \<not> P ((y # ys) ! k))
        \<and> mutateFound P f (y # ys) = (y # ys)[0 := f x]"
      by simp
    then show ?thesis by blast
  next
    case False
    with Cons.prems have "List.find P ys = Some x" by simp
    from Cons.IH [OF this] obtain i where i: "i < length ys" "ys ! i = x"
      "\<forall>k<i. \<not> P (ys ! k)" "mutateFound P f ys = ys[i := f x]"
      by blast
    have "\<forall>k<Suc i. \<not> P ((y # ys) ! k)"
    proof (intro allI impI)
      fix k assume "k < Suc i"
      with i(3) False show "\<not> P ((y # ys) ! k)" by (cases k) auto
    qed
    with i False have "Suc i < length (y # ys) \<and> (y # ys) ! Suc i = x \<and> (\<forall>k<Suc i. \<not> P ((y # ys) ! k))
        \<and> mutateFound P f (y # ys) = (y # ys)[Suc i := f x]"
      by simp
    then show ?thesis by blast
  qed
qed

lemma find_splice1_findIndex:
  "distinct (map k xs) \<Longrightarrow> findIndex (\<lambda>x. k x = a) xs \<noteq> - 1 \<Longrightarrow>
   List.find (\<lambda>x. k x = a) (splice1 (findIndex (\<lambda>x. k x = a) xs) xs) = None"
proof (induction xs)
  case Nil
  then show ?case by simp
next
  case (Cons x xs)
  show ?case
  proof (cases "k x = a")
    case True
    from Cons.prems(1) have "k x \<notin> k ` set xs" by simp
    with True have "\<forall>y \<in> set xs. k y \<noteq> a" by (metis imageI)
    with True show ?thesis by (simp add: splice1_def find_None_iff)
  next
    case False
    let ?i = "findIndex (\<lambda>x. k x = a) xs"
    from Cons.prems(2) False have ne: "?i \<noteq> - 1" by (simp add: Let_def split: if_splits)
    with findIndex_ge [of "\<lambda>x. k x = a" xs] have ge: "0 \<le> ?i" by arith
    then have "nat (?i + 1) = Suc (nat ?i)" by simp
    then have "splice1 (?i + 1) (x # xs) = x # splice1 ?i xs"
      by (simp add: splice1_def)
    moreover from Cons.IH Cons.prems(1) ne
    have "List.find (\<lambda>x. k x = a) (splice1 ?i xs) = None" by simp
    ultimately show ?thesis using False ne by (simp add: Let_def)
  qed
qed

lemma isDone_partition: "isDoneTodoList l \<longleftrightarrow> \<not> (hasUndoneTodos l \<or> todos l = [])"
  by (auto simp: isDoneTodoList_def hasUndoneTodos_def list_all_iff list_ex_iff)

subsection \<open>Updates inside one todo list\<close>

lemma toggle_todos_twice:
  "mutateFound (\<lambda>t. todo_id t = todoId) (\<lambda>t. t\<lparr>todo_done := \<not> todo_done t\<rparr>)
     (mutateFound (\<lambda>t. todo_id t = todoId) (\<lambda>t. t\<lparr>todo_done := \<not> todo_done t\<rparr>) ts) = ts"
  by (induction ts) auto

lemma find_toggle_todos:
  "List.find (\<lambda>t. todo_id t = todoId)
     (mutateFound (\<lambda>t. todo_id t = todoId) (\<lambda>t. t\<lparr>todo_done := \<not> todo_done t\<rparr>) ts)
   = map_option (\<lambda>t. t\<lparr>todo_done := \<not> todo_done t\<rparr>) (List.find (\<lambda>t. todo_id t = todoId) ts)"
  by (rule find_mutateFound) simp

lemma findTodoList_inTodoList:
  "(\<And>l. list_id (f l) = list_id l) \<Longrightarrow>
   priv_findTodoList listId (inTodoList listId f s) = map_option f (priv_findTodoList listId s)"
  unfolding priv_findTodoList_def inTodoList_def
  by (simp add: find_mutateFound)

lemma inTodoList_twice:
  "(\<And>l. list_id (f l) = list_id l) \<Longrightarrow>
   inTodoList listId g (inTodoList listId f s) = inTodoList listId (\<lambda>l. g (f l)) s"
  unfolding inTodoList_def by (simp add: mutateFound_twice)

lemma inTodoList_fixed: "(\<And>l. f l = l) \<Longrightarrow> inTodoList listId f s = s"
  unfolding inTodoList_def by (simp add: mutateFound_fixed)

subsection \<open>Two groups, one after the other\<close>

lemma nth_append_groups:
  assumes "\<forall>x \<in> set xs. \<not> P x" and "\<forall>y \<in> set ys. P y" and "i < length (xs @ ys)"
  shows "P ((xs @ ys) ! i) \<longleftrightarrow> length xs \<le> i"
proof (cases "i < length xs")
  case True
  with assms(1) show ?thesis by (simp add: nth_append)
next
  case False
  with assms(3) have "i - length xs < length ys" by simp
  with assms(2) False show ?thesis by (simp add: nth_append)
qed

lemma sorted_key_nth:
  "sorted (map k xs) \<Longrightarrow> i \<le> j \<Longrightarrow> j < length xs \<Longrightarrow> k (xs ! i) \<le> k (xs ! j)"
  using sorted_nth_mono [of "map k xs" i j] by simp

section \<open>Properties\<close>

subsection \<open>Done lists\<close>

text \<open>
  C2. \<^verbatim>\<open>isDoneTodoList(L)\<close> is true if and only if \<open>L\<close> has at least one todo and
  every todo of \<open>L\<close> is done; for a list without todos it is false.
\<close>

theorem isDoneTodoList_iff:
  "(isDoneTodoList L \<longleftrightarrow> todos L \<noteq> [] \<and> (\<forall>t \<in> set (todos L). todo_done t))
   \<and> (todos L = [] \<longrightarrow> \<not> isDoneTodoList L)"
  by (auto simp: isDoneTodoList_def list_all_iff)

theorem isDoneTodoList_iff_witness:
  "isDoneTodoList \<lparr>list_title = ''Chores'', list_id = 3, todos =
         [\<lparr>todo_id = 1, todo_title = ''Sweep'', todo_done = True\<rparr>]\<rparr>
   \<and> \<not> isDoneTodoList \<lparr>list_title = ''home'', list_id = 2, todos = []\<rparr>"
  using isDoneTodoList_iff [of "\<lparr>list_title = ''Chores'', list_id = 3, todos =
         [\<lparr>todo_id = 1, todo_title = ''Sweep'', todo_done = True\<rparr>]\<rparr>"]
    isDoneTodoList_iff [of "\<lparr>list_title = ''home'', list_id = 2, todos = []\<rparr>"]
  by simp

subsection \<open>Operations on a list that does not exist\<close>

text \<open>
  C3. When no stored list has the id \<open>listId\<close>, each of \<^verbatim>\<open>toggleDoneTodo\<close>,
  \<^verbatim>\<open>deleteTodo\<close>, \<^verbatim>\<open>deleteTodoList\<close>, \<^verbatim>\<open>markAllDone\<close>, \<^verbatim>\<open>addNewTodo\<close> and
  \<^verbatim>\<open>renameTodoList\<close> returns \<^verbatim>\<open>false\<close> and leaves the store as it was. None of
  them throws: the source has no \<^verbatim>\<open>throw\<close> and reads a field only of an object
  that a lookup found, so each method is a total function with a boolean result.
\<close>

theorem absent_list_unchanged:
  assumes "\<forall>l \<in> set (todoLists s). list_id l \<noteq> listId"
  shows "toggleDoneTodo listId todoId s = (False, s)
    \<and> deleteTodo listId todoId s = (False, s)
    \<and> deleteTodoList listId s = (False, s)
    \<and> markAllDone listId s = (False, s)
    \<and> addNewTodo n listId title s = (False, s)
    \<and> renameTodoList listId newTitle s = (False, s)"
proof -
  have none: "priv_findTodoList listId s = None"
    using assms by (simp add: priv_findTodoList_def find_None_iff)
  have "deleteTodoList listId s = (False, s)"
    using assms by (simp add: deleteTodoList_def findIndex_neg_iff find_None_iff)
  with none show ?thesis
    by (simp add: toggleDoneTodo_def priv_findTodo_def deleteTodo_def markAllDone_def
        addNewTodo_def renameTodoList_def)
qed

theorem absent_list_unchanged_witness:
  "list_all (\<lambda>l. list_id l \<noteq> 99999) (todoLists exampleStore)
    \<and> toggleDoneTodo 99999 1 exampleStore = (False, exampleStore)
    \<and> deleteTodo 99999 1 exampleStore = (False, exampleStore)
    \<and> deleteTodoList 99999 exampleStore = (False, exampleStore)
    \<and> markAllDone 99999 exampleStore = (False, exampleStore)
    \<and> addNewTodo 7 99999 ''New'' exampleStore = (False, exampleStore)
    \<and> renameTodoList 99999 ''Play'' exampleStore = (False, exampleStore)"
proof -
  have h: "\<forall>l \<in> set (todoLists exampleStore). list_id l \<noteq> 99999"
    by (simp add: exampleStore_def)
  from absent_list_unchanged [OF h] h show ?thesis
    by (simp add: list_all_iff)
qed

subsection \<open>Toggling a todo\<close>

text \<open>
  C4. When \<open>listId\<close> and \<open>todoId\<close> identify a todo (the private lookup finds
  it), two calls of \<^verbatim>\<open>toggleDoneTodo(listId, todoId)\<close> both succeed and the todo
  then has its original \<open>done\<close> value; the whole store is as it was before.
\<close>

theorem toggleDoneTodo_twice:
  assumes "priv_findTodo listId todoId s = Some t"
  shows "fst (toggleDoneTodo listId todoId s)
    \<and> fst (toggleDoneTodo listId todoId (snd (toggleDoneTodo listId todoId s)))
    \<and> map_option todo_done
        (priv_findTodo listId todoId
          (snd (toggleDoneTodo listId todoId (snd (toggleDoneTodo listId todoId s)))))
       = Some (todo_done t)
    \<and> snd (toggleDoneTodo listId todoId (snd (toggleDoneTodo listId todoId s))) = s"
proof -
  let ?G = "\<lambda>t. t\<lparr>todo_done := \<not> todo_done t\<rparr>"
  let ?F = "\<lambda>l. l\<lparr>todos := mutateFound (\<lambda>t. todo_id t = todoId) ?G (todos l)\<rparr>"
  let ?s1 = "inTodoList listId ?F s"
  from assms obtain l where l: "priv_findTodoList listId s = Some l"
    and t: "List.find (\<lambda>t. todo_id t = todoId) (todos l) = Some t"
    by (auto simp: priv_findTodo_def split: option.splits)
  have first: "toggleDoneTodo listId todoId s = (True, ?s1)"
    using assms by (simp add: toggleDoneTodo_def)
  have "priv_findTodoList listId ?s1 = Some (?F l)"
    using l by (simp add: findTodoList_inTodoList)
  then have "priv_findTodo listId todoId ?s1 = Some (?G t)"
    using t by (simp add: priv_findTodo_def find_toggle_todos)
  then have second: "toggleDoneTodo listId todoId ?s1 = (True, inTodoList listId ?F ?s1)"
    by (simp add: toggleDoneTodo_def)
  have "inTodoList listId ?F ?s1 = inTodoList listId (\<lambda>l. ?F (?F l)) s"
    by (rule inTodoList_twice) simp
  also have "\<dots> = s"
    by (rule inTodoList_fixed) (simp add: toggle_todos_twice)
  finally have restored: "inTodoList listId ?F ?s1 = s" .
  from first second restored assms show ?thesis by simp
qed

theorem toggleDoneTodo_twice_witness:
  "priv_findTodo 1 2 exampleStore = Some \<lparr>todo_id = 2, todo_title = ''B'', todo_done = True\<rparr>
    \<and> fst (toggleDoneTodo 1 2 exampleStore)
    \<and> fst (toggleDoneTodo 1 2 (snd (toggleDoneTodo 1 2 exampleStore)))
    \<and> map_option todo_done
        (priv_findTodo 1 2 (snd (toggleDoneTodo 1 2 (snd (toggleDoneTodo 1 2 exampleStore)))))
       = Some True
    \<and> snd (toggleDoneTodo 1 2 (snd (toggleDoneTodo 1 2 exampleStore))) = exampleStore"
proof -
  have h: "priv_findTodo 1 2 exampleStore
      = Some \<lparr>todo_id = 2, todo_title = ''B'', todo_done = True\<rparr>"
    by (simp add: priv_findTodo_def priv_findTodoList_def exampleStore_def)
  from toggleDoneTodo_twice [OF h] h show ?thesis by simp
qed

subsection \<open>Creating a list\<close>

text \<open>
  C5. After \<^verbatim>\<open>createTodoList(T)\<close>, which always returns \<^verbatim>\<open>true\<close>,
  \<^verbatim>\<open>isUniqueList(T)\<close> is false, whatever the store and the fresh id were.
\<close>

theorem createTodoList_not_unique:
  "fst (createTodoList n T s) \<and> \<not> isUniqueList T (snd (createTodoList n T s))"
  by (simp add: createTodoList_def isUniqueList_def)

theorem createTodoList_not_unique_witness:
  "isUniqueList ''Garden'' exampleStore
   \<and> fst (createTodoList 4 ''Garden'' exampleStore)
   \<and> \<not> isUniqueList ''Garden'' (snd (createTodoList 4 ''Garden'' exampleStore))"
proof -
  have "isUniqueList ''Garden'' exampleStore"
    by (simp add: isUniqueList_def exampleStore_def)
  with createTodoList_not_unique [of 4 "''Garden''" exampleStore] show ?thesis by simp
qed

subsection \<open>Deleting a list\<close>

text \<open>
  C6. In a store whose lists have distinct ids, after a successful
  \<^verbatim>\<open>deleteTodoList(id)\<close> no list with this id remains: the private lookup
  finds none, and \<^verbatim>\<open>loadTodoList(id)\<close> returns \<^verbatim>\<open>undefined\<close>.
\<close>

theorem deleteTodoList_then_load:
  assumes "distinct (map list_id (todoLists s))"
    and "deleteTodoList listId s = (True, s')"
  shows "priv_findTodoList listId s' = None \<and> loadTodoList listId s' = None"
proof -
  let ?i = "findIndex (\<lambda>l. list_id l = listId) (todoLists s)"
  from assms(2) have ne: "?i \<noteq> - 1"
    by (auto simp: deleteTodoList_def Let_def split: if_splits)
  with assms(2) have s': "s' = s\<lparr>todoLists := splice1 ?i (todoLists s)\<rparr>"
    by (simp add: deleteTodoList_def Let_def)
  from find_splice1_findIndex [OF assms(1) ne] show ?thesis
    by (simp add: s' loadTodoList_def deepCopy_def priv_findTodoList_def)
qed

theorem deleteTodoList_then_load_witness:
  "distinct (map list_id (todoLists exampleStore))
   \<and> loadTodoList 2 exampleStore = Some \<lparr>list_title = ''home'', list_id = 2, todos = []\<rparr>
   \<and> fst (deleteTodoList 2 exampleStore)
   \<and> priv_findTodoList 2 (snd (deleteTodoList 2 exampleStore)) = None
   \<and> loadTodoList 2 (snd (deleteTodoList 2 exampleStore)) = None"
proof -
  have d: "distinct (map list_id (todoLists exampleStore))"
    by (simp add: exampleStore_def)
  have ok: "fst (deleteTodoList 2 exampleStore)"
    by (simp add: deleteTodoList_def exampleStore_def)
  then have del: "deleteTodoList 2 exampleStore = (True, snd (deleteTodoList 2 exampleStore))"
    by (simp add: prod_eq_iff)
  have "loadTodoList 2 exampleStore = Some \<lparr>list_title = ''home'', list_id = 2, todos = []\<rparr>"
    by (simp add: loadTodoList_def deepCopy_def priv_findTodoList_def exampleStore_def)
  with deleteTodoList_then_load [OF d del] d ok show ?thesis by simp
qed

subsection \<open>Unique titles\<close>

text \<open>
  C7. \<^verbatim>\<open>isUniqueList(title)\<close> is true if and only if no stored list has exactly
  this title; the comparison is \<^verbatim>\<open>===\<close> on strings, so it distinguishes letter
  case: a title stays unique when a list is created whose title differs from it
  only in case.
\<close>

theorem isUniqueList_iff:
  "(isUniqueList title s \<longleftrightarrow> (\<forall>l \<in> set (todoLists s). list_title l \<noteq> title))
   \<and> (isUniqueList title s \<and> T \<noteq> title \<and> toLowerCase T = toLowerCase title \<longrightarrow>
        isUniqueList title (snd (createTodoList n T s)))"
  by (auto simp: isUniqueList_def createTodoList_def list_ex_iff)

theorem isUniqueList_iff_witness:
  "toLowerCase ''Work'' = toLowerCase ''work''
   \<and> isUniqueList ''work'' exampleStore
   \<and> isUniqueList ''work'' (snd (createTodoList 4 ''Work'' exampleStore))
   \<and> \<not> isUniqueList ''Work'' exampleStore"
proof -
  have low: "toLowerCase ''Work'' = toLowerCase ''work''"
    by code_simp
  have ne: "''Work'' \<noteq> ''work''"
    by simp
  have a: "\<forall>l \<in> set (todoLists exampleStore). list_title l \<noteq> ''work''"
    and b: "\<not> (\<forall>l \<in> set (todoLists exampleStore). list_title l \<noteq> ''Work'')"
    by (simp_all add: exampleStore_def)
  from isUniqueList_iff [of "''work''" exampleStore "''Work''" 4]
    isUniqueList_iff [of "''Work''" exampleStore "''Work''" 4] low ne a b
  show ?thesis by simp
qed

subsection \<open>Operations on a todo that does not exist\<close>

text \<open>
  C8. When the list that \<open>listId\<close> identifies exists but has no todo with the id
  \<open>todoId\<close>, both \<^verbatim>\<open>deleteTodo\<close> and \<^verbatim>\<open>toggleDoneTodo\<close> return \<^verbatim>\<open>false\<close> and
  leave the store, this list's todos included, as it was.
\<close>

theorem absent_todo_unchanged:
  assumes "priv_findTodoList listId s = Some l"
    and "\<forall>t \<in> set (todos l). todo_id t \<noteq> todoId"
  shows "deleteTodo listId todoId s = (False, s) \<and> toggleDoneTodo listId todoId s = (False, s)"
proof -
  from assms(2) have none: "List.find (\<lambda>t. todo_id t = todoId) (todos l) = None"
    by (simp add: find_None_iff)
  then have "findIndex (\<lambda>t. todo_id t = todoId) (todos l) = - 1"
    by (simp add: findIndex_neg_iff)
  with assms(1) have "deleteTodo listId todoId s = (False, s)"
    by (simp add: deleteTodo_def)
  moreover from assms(1) none have "toggleDoneTodo listId todoId s = (False, s)"
    by (simp add: toggleDoneTodo_def priv_findTodo_def)
  ultimately show ?thesis by simp
qed

theorem absent_todo_unchanged_witness:
  "priv_findTodoList 1 exampleStore = Some (hd (todoLists exampleStore))
   \<and> list_all (\<lambda>t. todo_id t \<noteq> 5) (todos (hd (todoLists exampleStore)))
   \<and> deleteTodo 1 5 exampleStore = (False, exampleStore)
   \<and> toggleDoneTodo 1 5 exampleStore = (False, exampleStore)"
proof -
  have f: "priv_findTodoList 1 exampleStore = Some (hd (todoLists exampleStore))"
    by (simp add: priv_findTodoList_def exampleStore_def)
  have h: "\<forall>t \<in> set (todos (hd (todoLists exampleStore))). todo_id t \<noteq> 5"
    by (simp add: exampleStore_def)
  from absent_todo_unchanged [OF f h] f h show ?thesis
    by (simp add: list_all_iff)
qed

subsection \<open>Marking an empty list\<close>

text \<open>
  C9. When the store has a list with id \<open>listId\<close> and no todos (at position \<open>i\<close>),
  \<^verbatim>\<open>markAllDone(listId)\<close> returns \<^verbatim>\<open>true\<close>, and afterwards the list at this
  position still has the id and \<^verbatim>\<open>isDoneTodoList\<close> is still false for it.
\<close>

theorem markAllDone_empty_not_done:
  assumes "i < length (todoLists s)"
    and "list_id (todoLists s ! i) = listId"
    and "todos (todoLists s ! i) = []"
  shows "fst (markAllDone listId s)
    \<and> length (todoLists (snd (markAllDone listId s))) = length (todoLists s)
    \<and> list_id (todoLists (snd (markAllDone listId s)) ! i) = listId
    \<and> \<not> isDoneTodoList (todoLists (snd (markAllDone listId s)) ! i)"
proof -
  let ?F = "\<lambda>l. l\<lparr>todos := map (\<lambda>todo. todo\<lparr>todo_done := True\<rparr>) (todos l)\<rparr>"
  let ?P = "\<lambda>l. list_id l = listId"
  from assms(1,2) have "todoLists s ! i \<in> set (todoLists s) \<and> ?P (todoLists s ! i)"
    by simp
  then have "List.find ?P (todoLists s) \<noteq> None"
    by (auto simp: find_None_iff)
  then obtain l where l: "priv_findTodoList listId s = Some l"
    by (auto simp: priv_findTodoList_def)
  then have res: "markAllDone listId s = (True, inTodoList listId ?F s)"
    by (simp add: markAllDone_def)
  have fixed: "?F (todoLists s ! i) = todoLists s ! i"
    using assms(3) by simp
  from mutateFound_nth [OF assms(1), of ?P ?F] fixed
  have same: "todoLists (inTodoList listId ?F s) ! i = todoLists s ! i"
    by (auto simp: inTodoList_def)
  with assms(2,3) res show ?thesis
    by (simp add: isDoneTodoList_def inTodoList_def length_mutateFound)
qed

theorem markAllDone_empty_not_done_witness:
  "todos (todoLists exampleStore ! 1) = []
    \<and> fst (markAllDone 2 exampleStore)
    \<and> length (todoLists (snd (markAllDone 2 exampleStore))) = 3
    \<and> list_id (todoLists (snd (markAllDone 2 exampleStore)) ! 1) = 2
    \<and> \<not> isDoneTodoList (todoLists (snd (markAllDone 2 exampleStore)) ! 1)"
proof -
  have a: "1 < length (todoLists exampleStore)"
    and b: "list_id (todoLists exampleStore ! 1) = 2"
    and c: "todos (todoLists exampleStore ! 1) = []"
    and d: "length (todoLists exampleStore) = 3"
    by (simp_all add: exampleStore_def)
  from markAllDone_empty_not_done [OF a b c] c d show ?thesis by simp
qed

subsection \<open>What a toggle changes\<close>

text \<open>
  C10. A successful \<^verbatim>\<open>toggleDoneTodo(listId, todoId)\<close> changes the \<open>done\<close> field
  of one todo and nothing else: the new store is the old one with the first
  list \<open>l\<close> of this id (position \<open>i\<close>) holding, at the position \<open>j\<close> of its first
  todo \<open>t\<close> of this id, the todo \<open>t\<close> with \<open>done\<close> negated. The id and title of
  \<open>t\<close>, the other todos of \<open>l\<close>, the id and title of \<open>l\<close>, the other lists
  and all positions are those of the old store.
\<close>

theorem toggleDoneTodo_frame:
  assumes "priv_findTodo listId todoId s = Some t"
  shows "\<exists>i j l. i < length (todoLists s) \<and> todoLists s ! i = l \<and> list_id l = listId
      \<and> (\<forall>k<i. list_id (todoLists s ! k) \<noteq> listId)
      \<and> j < length (todos l) \<and> todos l ! j = t \<and> todo_id t = todoId
      \<and> (\<forall>k<j. todo_id (todos l ! k) \<noteq> todoId)
      \<and> toggleDoneTodo listId todoId s =
          (True, s\<lparr>todoLists := (todoLists s)
             [i := l\<lparr>todos := (todos l)[j := t\<lparr>todo_done := \<not> todo_done t\<rparr>]\<rparr>]\<rparr>)"
proof -
  let ?G = "\<lambda>t. t\<lparr>todo_done := \<not> todo_done t\<rparr>"
  let ?Q = "\<lambda>t. todo_id t = todoId"
  let ?F = "\<lambda>l. l\<lparr>todos := mutateFound ?Q ?G (todos l)\<rparr>"
  let ?P = "\<lambda>l. list_id l = listId"
  from assms obtain l where l: "List.find ?P (todoLists s) = Some l"
    and t: "List.find ?Q (todos l) = Some t"
    by (auto simp: priv_findTodo_def priv_findTodoList_def split: option.splits)
  from mutateFound_update [OF l, of ?F] obtain i where i: "i < length (todoLists s)"
    "todoLists s ! i = l" "\<forall>k<i. \<not> ?P (todoLists s ! k)"
    "mutateFound ?P ?F (todoLists s) = (todoLists s)[i := ?F l]"
    by blast
  from mutateFound_update [OF t, of ?G] obtain j where j: "j < length (todos l)"
    "todos l ! j = t" "\<forall>k<j. \<not> ?Q (todos l ! k)"
    "mutateFound ?Q ?G (todos l) = (todos l)[j := ?G t]"
    by blast
  from l have lid: "list_id l = listId" by (auto simp: find_Some_iff)
  from t have tid: "todo_id t = todoId" by (auto simp: find_Some_iff)
  have "toggleDoneTodo listId todoId s =
      (True, s\<lparr>todoLists := (todoLists s)[i := l\<lparr>todos := (todos l)[j := ?G t]\<rparr>]\<rparr>)"
    using assms i(4) j(4) by (simp add: toggleDoneTodo_def inTodoList_def)
  with i(1,2,3) j(1,2,3) lid tid show ?thesis by blast
qed


theorem toggleDoneTodo_frame_witness:
  "priv_findTodo 1 2 exampleStore = Some \<lparr>todo_id = 2, todo_title = ''B'', todo_done = True\<rparr>
   \<and> toggleDoneTodo 1 2 exampleStore = (True, \<lparr>todoLists =
     [\<lparr>list_title = ''Work'', list_id = 1, todos =
         [\<lparr>todo_id = 1, todo_title = ''A'', todo_done = False\<rparr>,
          \<lparr>todo_id = 2, todo_title = ''B'', todo_done = False\<rparr>]\<rparr>,
      \<lparr>list_title = ''home'', list_id = 2, todos = []\<rparr>,
      \<lparr>list_title = ''Chores'', list_id = 3, todos =
         [\<lparr>todo_id = 1, todo_title = ''Sweep'', todo_done = True\<rparr>]\<rparr>]\<rparr>)"
proof -
  have h: "priv_findTodo 1 2 exampleStore
      = Some \<lparr>todo_id = 2, todo_title = ''B'', todo_done = True\<rparr>"
    by (simp add: priv_findTodo_def priv_findTodoList_def exampleStore_def)
  from toggleDoneTodo_frame [OF h] obtain i j l where
    i: "i < length (todoLists exampleStore)" "todoLists exampleStore ! i = l" "list_id l = 1"
    and j: "j < length (todos l)"
      "todos l ! j = \<lparr>todo_id = 2, todo_title = ''B'', todo_done = True\<rparr>"
    and r: "toggleDoneTodo 1 2 exampleStore =
          (True, exampleStore\<lparr>todoLists := (todoLists exampleStore)
             [i := l\<lparr>todos := (todos l)[j := \<lparr>todo_id = 2, todo_title = ''B'', todo_done = True\<rparr>
                 \<lparr>todo_done := \<not> todo_done \<lparr>todo_id = 2, todo_title = ''B'', todo_done = True\<rparr>\<rparr>]\<rparr>]\<rparr>)"
    by blast
  from i have i0: "i = 0"
    by (auto simp: exampleStore_def nth_Cons' less_Suc_eq numeral_3_eq_3 split: if_splits)
  with i(2) have l: "l = \<lparr>list_title = ''Work'', list_id = 1, todos =
         [\<lparr>todo_id = 1, todo_title = ''A'', todo_done = False\<rparr>,
          \<lparr>todo_id = 2, todo_title = ''B'', todo_done = True\<rparr>]\<rparr>"
    by (simp add: exampleStore_def)
  with j have j1: "j = 1"
    by (auto simp: nth_Cons' less_Suc_eq numeral_2_eq_2 split: if_splits)
  from r i0 l j1 h show ?thesis
    by (simp add: exampleStore_def)
qed

subsection \<open>The sorted view\<close>

text \<open>
  C1. \<^verbatim>\<open>sortedTodoLists()\<close> returns the stored lists (each as often as it is
  stored) in an order where every list that has an undone todo or has no todos
  comes before every list whose todos are all done; a list is in the second
  group when \<^verbatim>\<open>isDoneTodoList\<close> holds, that is, when it has a todo and all its
  todos are done, and every list is in exactly one of the two groups. Within
  each group the lower-cased titles are in non-decreasing order.
\<close>

theorem sortedTodoLists_ordered:
  "mset (sortedTodoLists s) = mset (todoLists s)
   \<and> (\<forall>l. isDoneTodoList l \<longleftrightarrow> \<not> (hasUndoneTodos l \<or> todos l = []))
   \<and> (\<forall>i j. i < length (sortedTodoLists s) \<and> j < length (sortedTodoLists s)
        \<and> (hasUndoneTodos (sortedTodoLists s ! i) \<or> todos (sortedTodoLists s ! i) = [])
        \<and> isDoneTodoList (sortedTodoLists s ! j) \<longrightarrow> i < j)
   \<and> (\<forall>i j. i < j \<and> j < length (sortedTodoLists s)
        \<and> isDoneTodoList (sortedTodoLists s ! i) = isDoneTodoList (sortedTodoLists s ! j) \<longrightarrow>
        toLowerCase (list_title (sortedTodoLists s ! i))
          \<le> toLowerCase (list_title (sortedTodoLists s ! j)))"
proof -
  let ?k = "\<lambda>l. toLowerCase (list_title l)"
  let ?A = "sort_key ?k (filter (\<lambda>l. \<not> isDoneTodoList l) (todoLists s))"
  let ?B = "sort_key ?k (filter isDoneTodoList (todoLists s))"
  have r: "sortedTodoLists s = ?A @ ?B"
    by (simp add: sortedTodoLists_def sortTodoLists_def deepCopy_def Let_def)
  have A: "\<forall>x \<in> set ?A. \<not> isDoneTodoList x" and B: "\<forall>y \<in> set ?B. isDoneTodoList y"
    by simp_all
  have sA: "sorted (map ?k ?A)" and sB: "sorted (map ?k ?B)"
    by (rule sorted_sort_key)+
  have grp: "isDoneTodoList ((?A @ ?B) ! i) \<longleftrightarrow> length ?A \<le> i" if "i < length (?A @ ?B)" for i
    using nth_append_groups [OF A B that] .
  have perm: "mset (sortedTodoLists s) = mset (todoLists s)"
    unfolding r by simp
  have before: "i < j" if "i < length (?A @ ?B)" "j < length (?A @ ?B)"
      "hasUndoneTodos ((?A @ ?B) ! i) \<or> todos ((?A @ ?B) ! i) = []"
      "isDoneTodoList ((?A @ ?B) ! j)" for i j
  proof -
    from that(3) have "\<not> isDoneTodoList ((?A @ ?B) ! i)" by (simp add: isDone_partition)
    with grp [OF that(1)] have "i < length ?A" by simp
    moreover from that(4) grp [OF that(2)] have "length ?A \<le> j" by simp
    ultimately show ?thesis by simp
  qed
  have within: "?k ((?A @ ?B) ! i) \<le> ?k ((?A @ ?B) ! j)" if "i < j" "j < length (?A @ ?B)"
      "isDoneTodoList ((?A @ ?B) ! i) = isDoneTodoList ((?A @ ?B) ! j)" for i j
  proof (cases "j < length ?A")
    case True
    with that(1) sorted_key_nth [OF sA, of i j] show ?thesis
      by (simp add: nth_append)
  next
    case False
    with grp [OF that(2)] have "isDoneTodoList ((?A @ ?B) ! j)" by simp
    moreover from that(1,2) have "i < length (?A @ ?B)" by simp
    ultimately have "length ?A \<le> i" using grp [of i] that(3) by simp
    with False that(1,2) sorted_key_nth [OF sB, of "i - length ?A" "j - length ?A"]
    show ?thesis by (simp add: nth_append)
  qed
  from perm before within show ?thesis
    unfolding r by (simp add: isDone_partition)
qed


theorem sortedTodoLists_ordered_witness:
  "sortedTodoLists exampleStore =
     [\<lparr>list_title = ''home'', list_id = 2, todos = []\<rparr>,
      \<lparr>list_title = ''Work'', list_id = 1, todos =
         [\<lparr>todo_id = 1, todo_title = ''A'', todo_done = False\<rparr>,
          \<lparr>todo_id = 2, todo_title = ''B'', todo_done = True\<rparr>]\<rparr>,
      \<lparr>list_title = ''Chores'', list_id = 3, todos =
         [\<lparr>todo_id = 1, todo_title = ''Sweep'', todo_done = True\<rparr>]\<rparr>]
   \<and> mset (sortedTodoLists exampleStore) = mset (todoLists exampleStore)
   \<and> todos (sortedTodoLists exampleStore ! 0) = []
   \<and> hasUndoneTodos (sortedTodoLists exampleStore ! 1)
   \<and> isDoneTodoList (sortedTodoLists exampleStore ! 2)
   \<and> toLowerCase (list_title (sortedTodoLists exampleStore ! 0))
       \<le> toLowerCase (list_title (sortedTodoLists exampleStore ! 1))"
proof -
  let ?r = "sortedTodoLists exampleStore"
  have e: "?r =
     [\<lparr>list_title = ''home'', list_id = 2, todos = []\<rparr>,
      \<lparr>list_title = ''Work'', list_id = 1, todos =
         [\<lparr>todo_id = 1, todo_title = ''A'', todo_done = False\<rparr>,
          \<lparr>todo_id = 2, todo_title = ''B'', todo_done = True\<rparr>]\<rparr>,
      \<lparr>list_title = ''Chores'', list_id = 3, todos =
         [\<lparr>todo_id = 1, todo_title = ''Sweep'', todo_done = True\<rparr>]\<rparr>]"
    by code_simp
  have len: "0 < length ?r" "1 < length ?r" "2 < length ?r"
    and empty: "todos (?r ! 0) = []"
    and undone: "hasUndoneTodos (?r ! 1)"
    and dones: "isDoneTodoList (?r ! 2)"
    and same: "isDoneTodoList (?r ! 0) = isDoneTodoList (?r ! 1)"
    by (simp_all add: e hasUndoneTodos_def isDoneTodoList_def)
  note ordered = sortedTodoLists_ordered [of exampleStore]
  from ordered have perm: "mset ?r = mset (todoLists exampleStore)"
    by blast
  from ordered len same have "toLowerCase (list_title (?r ! 0)) \<le> toLowerCase (list_title (?r ! 1))"
    by (metis zero_less_one)
  with e perm empty undone dones show ?thesis by blast
qed

end
